theory Spec2Isabelle
  imports Complex_Main "HOL-Library.Word" "HOL-Library.Monad_Syntax"
begin

section \<open>Adaptive preprocessing pipeline (main.py)\<close>

text \<open>
  The model follows \<^verbatim>\<open>main.py\<close>. An image is a two-dimensional array of
  unsigned 8-bit samples, kept as a list of rows (all of one length, see
  \<open>shape_ok\<close>). Python floats are modelled as real numbers: the floats that the
  theorems below speak about are compared with, or clipped to, small decimal
  constants, and the statistics of a constant array are exact in both readings.
\<close>

type_synonym pixel = "8 word"
type_synonym image = "pixel list list"

definition height :: "image \<Rightarrow> nat" where
  "height img = length img"

definition width :: "image \<Rightarrow> nat" where
  "width img = (case img of [] \<Rightarrow> 0 | row # _ \<Rightarrow> length row)"

text \<open>A numpy array is rectangular: \<open>h\<close> rows of \<open>w\<close> samples each.\<close>

definition shape_ok :: "nat \<Rightarrow> nat \<Rightarrow> image \<Rightarrow> bool" where
  "shape_ok h w img \<longleftrightarrow> length img = h \<and> list_all (\<lambda>row. length row = w) img"

definition const_img :: "pixel \<Rightarrow> image \<Rightarrow> bool" where
  "const_img v img \<longleftrightarrow> list_all (list_all (\<lambda>x. x = v)) img"

subsection \<open>Python slicing\<close>

text \<open>
  A slice bound of \<^verbatim>\<open>xs[start:stop]\<close> on a sequence of length \<open>n\<close>: a negative
  bound counts from the end, and the result is clipped to \<open>0..n\<close>. A slice never
  raises; an empty range gives an empty sequence.
\<close>

definition py_index :: "int \<Rightarrow> nat \<Rightarrow> nat" where
  "py_index i n = (if i < 0 then nat (max (i + int n) 0) else min (nat i) n)"

definition py_slice :: "int \<Rightarrow> int \<Rightarrow> 'a list \<Rightarrow> 'a list" where
  "py_slice start stop xs =
     (let n = length xs; a = py_index start n; b = py_index stop n
      in take (b - a) (drop a xs))"

text \<open>\<^verbatim>\<open>img[r0:r1, c0:c1]\<close> on a two-dimensional array.\<close>

definition slice2 :: "image \<Rightarrow> int \<Rightarrow> int \<Rightarrow> int \<Rightarrow> int \<Rightarrow> image" where
  "slice2 img r0 r1 c0 c1 = map (py_slice c0 c1) (py_slice r0 r1 img)"

subsection \<open>Metric estimation (lines 42-58)\<close>

text \<open>
  Lines 46-57: the eight patches, in the order of the source. Python's \<^verbatim>\<open>//\<close> on
  integers is floor division, which is \<open>div\<close> on \<open>int\<close>.
\<close>

definition patches :: "image \<Rightarrow> image list" where
  "patches img =
     (let h = int (height img); w = int (width img); patch_size = 40 in
      [slice2 img 0 patch_size 0 patch_size,
       slice2 img 0 patch_size (w - patch_size) w,
       slice2 img (h - patch_size) h 0 patch_size,
       slice2 img (h - patch_size) h (w - patch_size) w,
       slice2 img (h div 2 - patch_size div 2) (h div 2 + patch_size div 2) 0 patch_size,
       slice2 img (h div 2 - patch_size div 2) (h div 2 + patch_size div 2) (w - patch_size) w,
       slice2 img 0 patch_size (w div 2 - patch_size div 2) (w div 2 + patch_size div 2),
       slice2 img (h - patch_size) h (w div 2 - patch_size div 2) (w div 2 + patch_size div 2)])"

text \<open>
  \<^verbatim>\<open>np.mean\<close>, \<^verbatim>\<open>np.std\<close> and \<^verbatim>\<open>np.percentile\<close>. On an empty array numpy gives
  \<^verbatim>\<open>nan\<close> (or raises, for the percentile); that outcome is \<open>None\<close> here.
  \<open>patches_nonempty\<close> below shows that no patch of a non-empty image is empty.
\<close>

definition np_mean :: "real list \<Rightarrow> real option" where
  "np_mean xs = (if xs = [] then None else Some (sum_list xs / real (length xs)))"

definition intensities :: "image \<Rightarrow> real list" where
  "intensities p = map (\<lambda>x. real (unat x)) (concat p)"

definition np_std :: "image \<Rightarrow> real option" where
  "np_std p =
     (case np_mean (intensities p) of
        None \<Rightarrow> None
      | Some m \<Rightarrow> map_option sqrt (np_mean (map (\<lambda>x. (x - m)\<^sup>2) (intensities p))))"

text \<open>Line 58: \<^verbatim>\<open>noise_level = np.mean([np.std(p) for p in patches])\<close>.\<close>

definition noise_level :: "image \<Rightarrow> real option" where
  "noise_level img =
     (case those (map np_std (patches img)) of
        None \<Rightarrow> None
      | Some sds \<Rightarrow> np_mean sds)"

text \<open>
  \<^verbatim>\<open>np.percentile(a, q)\<close> with numpy's default linear interpolation: the array is
  sorted, the virtual index is \<open>(n - 1) * q / 100\<close>, and the result interpolates
  between the two neighbouring order statistics.
\<close>

definition np_percentile :: "real list \<Rightarrow> real \<Rightarrow> real option" where
  "np_percentile xs q =
     (if xs = [] then None
      else let arr = sort xs;
               n = length arr;
               virtual_index = real (n - 1) * (q / 100);
               previous_index = nat \<lfloor>virtual_index\<rfloor>;
               next_index = min (previous_index + 1) (n - 1);
               gamma = virtual_index - real previous_index;
               a = arr ! previous_index;
               b = arr ! next_index
           in Some (a + (b - a) * gamma))"

text \<open>Line 42: \<^verbatim>\<open>contrast = np.percentile(img, 99) - np.percentile(img, 1)\<close>.\<close>

definition contrast :: "image \<Rightarrow> real option" where
  "contrast img =
     (case (np_percentile (intensities img) 99, np_percentile (intensities img) 1) of
        (Some hi, Some lo) \<Rightarrow> Some (hi - lo)
      | _ \<Rightarrow> None)"

subsection \<open>Parameter selection\<close>

text \<open>\<^verbatim>\<open>np.clip(x, lo, hi)\<close> is \<^verbatim>\<open>minimum(maximum(x, lo), hi)\<close>.\<close>

definition np_clip :: "real \<Rightarrow> real \<Rightarrow> real \<Rightarrow> real" where
  "np_clip x lo hi = min (max x lo) hi"

text \<open>Line 61: \<^verbatim>\<open>clahe_clip = np.clip(contrast / 40, 1.0, 3.0)\<close>.\<close>

definition clahe_clip :: "real \<Rightarrow> real" where
  "clahe_clip c = np_clip (c / 40) 1.0 3.0"

text \<open>Line 69: \<^verbatim>\<open>denoise_strength = np.clip(noise_level * 0.6, 5, 15)\<close>.\<close>

definition denoise_strength :: "real \<Rightarrow> real" where
  "denoise_strength nl = np_clip (nl * 0.6) 5 15"

text \<open>Lines 78-85: the cascade that selects the sharpening strength.\<close>

definition strength :: "real \<Rightarrow> real" where
  "strength sharpness =
     (if sharpness < 20 then 2.0
      else if sharpness < 80 then 1.7
      else if sharpness > 300 then 0.7
      else 1.1)"

subsection \<open>The patch layout in the specification's words\<close>

text \<open>
  A sub-block of \<open>j\<close> rows and \<open>k\<close> columns whose top-left corner is at row \<open>r\<close>,
  column \<open>c\<close>; \<open>block\<close> is the 40 by 40 case.
\<close>

definition sub_block :: "image \<Rightarrow> nat \<Rightarrow> nat \<Rightarrow> nat \<Rightarrow> nat \<Rightarrow> image" where
  "sub_block img r j c k = map (\<lambda>row. take k (drop c row)) (take j (drop r img))"

definition block :: "image \<Rightarrow> nat \<Rightarrow> nat \<Rightarrow> image" where
  "block img r c = map (\<lambda>row. take 40 (drop c row)) (take 40 (drop r img))"

text \<open>
  The eight placements of the specification: the four corners, the vertical
  midpoints of the left and right edges, and the horizontal midpoints of the top
  and bottom edges, centred by floor division.
\<close>

definition spec_patches :: "image \<Rightarrow> image list" where
  "spec_patches img =
     (let h = height img; w = width img in
      [block img 0 0, block img 0 (w - 40),
       block img (h - 40) 0, block img (h - 40) (w - 40),
       block img (h div 2 - 20) 0, block img (h div 2 - 20) (w - 40),
       block img 0 (w div 2 - 20), block img (h - 40) (w div 2 - 20)])"

text \<open>The population standard deviation of the intensities of a non-empty patch.\<close>

definition intensity_std :: "image \<Rightarrow> real" where
  "intensity_std p =
     (let xs = intensities p; n = real (length xs); m = sum_list xs / n
      in sqrt (sum_list (map (\<lambda>x. (x - m)\<^sup>2) xs) / n))"

subsection \<open>The filter chain (lines 33-94)\<close>

text \<open>
  The argument of \<^verbatim>\<open>adaptive_preprocessing\<close>: a two-dimensional array, a
  three-dimensional one (rows, columns, channels), or an array of any other rank.
\<close>

datatype ndarray = Arr2 image | Arr3 "pixel list list list" | ArrOther

text \<open>
  The OpenCV primitives are external. Each one is a parameter that maps its
  arguments, in the order of the call in the source, to the image it returns, or
  to \<open>None\<close> when it raises.
\<close>

record cv2 =
  cvtColor_BGR2GRAY :: "pixel list list list \<Rightarrow> image option"
  Laplacian_64F :: "image \<Rightarrow> real list list option"
  clahe_apply :: "real \<Rightarrow> nat \<times> nat \<Rightarrow> image \<Rightarrow> image option"
  bilateralFilter :: "image \<Rightarrow> nat \<Rightarrow> real \<Rightarrow> real \<Rightarrow> image option"
  fastNlMeansDenoising :: "image \<Rightarrow> real \<Rightarrow> nat \<Rightarrow> nat \<Rightarrow> image option"
  GaussianBlur :: "image \<Rightarrow> nat \<times> nat \<Rightarrow> real \<Rightarrow> image option"
  addWeighted :: "image \<Rightarrow> real \<Rightarrow> image \<Rightarrow> real \<Rightarrow> real \<Rightarrow> image option"

text \<open>
  Lines 36-37 and 46. A three-dimensional array is converted to grey. An array of
  any other rank than two passes lines 39-43 without effect and then fails to
  unpack into \<^verbatim>\<open>h, w\<close> at line 46, which ends in the \<^verbatim>\<open>except\<close> branch.
\<close>

definition as_gray :: "cv2 \<Rightarrow> ndarray \<Rightarrow> image option" where
  "as_gray P a =
     (case a of
        Arr3 c \<Rightarrow> cvtColor_BGR2GRAY P c
      | Arr2 g \<Rightarrow> Some g
      | ArrOther \<Rightarrow> None)"

text \<open>Line 39: \<^verbatim>\<open>np.clip(img, 0, 255).astype(np.uint8)\<close>.\<close>

definition clip_u8 :: "image \<Rightarrow> image" where
  "clip_u8 img = map (map (\<lambda>x. word_of_nat (min (max (unat x) 0) 255))) img"

text \<open>\<^verbatim>\<open>ndarray.var()\<close>: the mean of the squared deviations from the mean.\<close>

definition np_var :: "real list \<Rightarrow> real option" where
  "np_var xs =
     (case np_mean xs of
        None \<Rightarrow> None
      | Some m \<Rightarrow> np_mean (map (\<lambda>x. (x - m)\<^sup>2) xs))"

text \<open>Line 43: \<^verbatim>\<open>sharpness = cv2.Laplacian(img, cv2.CV_64F).var()\<close>.\<close>

definition sharpness :: "cv2 \<Rightarrow> image \<Rightarrow> real option" where
  "sharpness P img =
     (case Laplacian_64F P img of
        None \<Rightarrow> None
      | Some lap \<Rightarrow> np_var (concat lap))"

text \<open>
  The body of \<^verbatim>\<open>adaptive_preprocessing\<close>. The whole body is inside one
  \<^verbatim>\<open>try\<close>, so the first step that fails makes the function return \<^verbatim>\<open>None\<close>.
\<close>

definition adaptive_preprocessing :: "cv2 \<Rightarrow> ndarray \<Rightarrow> image option" where
  "adaptive_preprocessing P a = do {
     g \<leftarrow> as_gray P a;
     let img = clip_u8 g;
     c \<leftarrow> contrast img;
     s \<leftarrow> sharpness P img;
     n \<leftarrow> noise_level img;
     img_clahe \<leftarrow> clahe_apply P (clahe_clip c) (8, 8) img;
     img_bilateral \<leftarrow> bilateralFilter P img_clahe 9 75 75;
     img_denoised \<leftarrow> fastNlMeansDenoising P img_bilateral (denoise_strength n) 7 21;
     gaussian \<leftarrow> GaussianBlur P img_denoised (5, 5) 1.2;
     addWeighted P img_denoised (strength s) gaussian (- (strength s - 1)) 0
   }"

subsection \<open>Paths (os.path, POSIX flavour)\<close>

text \<open>\<^verbatim>\<open>s.rfind(c)\<close>: the index of the last occurrence, or -1.\<close>

definition rfind :: "char \<Rightarrow> string \<Rightarrow> int" where
  "rfind c s =
     (case filter (\<lambda>i. s ! i = c) (rev [0..<length s]) of
        [] \<Rightarrow> - 1
      | i # _ \<Rightarrow> int i)"

text \<open>
  The root that \<^verbatim>\<open>os.path.splitext\<close> returns: the path up to its last dot, when
  that dot comes after the last separator and after a character of the file name
  that is not a dot; the whole path otherwise.
\<close>

definition splitext_root :: "string \<Rightarrow> string" where
  "splitext_root p =
     (let sepIndex = rfind (CHR ''/'') p; dotIndex = rfind (CHR ''.'') p in
      if dotIndex > sepIndex
         \<and> list_ex (\<lambda>ch. ch \<noteq> CHR ''.'') (py_slice (sepIndex + 1) dotIndex p)
      then take (nat dotIndex) p
      else p)"

text \<open>Line 108.\<close>

definition out_path :: "string \<Rightarrow> string" where
  "out_path file_path = splitext_root file_path @ ''_processed.png''"

text \<open>\<^verbatim>\<open>str.lower\<close> on ASCII letters, and \<^verbatim>\<open>str.endswith\<close>.\<close>

definition lower_char :: "char \<Rightarrow> char" where
  "lower_char ch =
     (let n = (of_char ch :: nat) in if 65 \<le> n \<and> n \<le> 90 then char_of (n + 32) else ch)"

definition lower :: "string \<Rightarrow> string" where
  "lower s = map lower_char s"

definition endswith :: "string \<Rightarrow> string \<Rightarrow> bool" where
  "endswith s suf \<longleftrightarrow> length suf \<le> length s \<and> drop (length s - length suf) s = suf"

text \<open>Line 119: \<^verbatim>\<open>f.lower().endswith(('.dcm', '.rvg'))\<close>.\<close>

definition has_image_ext :: "string \<Rightarrow> bool" where
  "has_image_ext f \<longleftrightarrow> endswith (lower f) ''.dcm'' \<or> endswith (lower f) ''.rvg''"

text \<open>\<^verbatim>\<open>os.path.join(a, b)\<close>.\<close>

definition path_join :: "string \<Rightarrow> string \<Rightarrow> string" where
  "path_join a b =
     (if b \<noteq> [] \<and> hd b = CHR ''/'' then b
      else if a = [] \<or> last a = CHR ''/'' then a @ b
      else a @ ''/'' @ b)"

subsection \<open>Files and the batch loop (lines 96-128)\<close>

text \<open>What the program prints, one constructor for each \<^verbatim>\<open>print\<close> of the source.\<close>

datatype msg =
    Processing string
  | ErrorLoading string
  | PreprocessingFailed
  | Saved string
  | CouldNotSave
  | FailedToList string
  | FileNotFound string

text \<open>
  The state that the program acts on: the files by path, the printed lines, and
  the calls of \<^verbatim>\<open>cv2.imwrite\<close> made so far.
\<close>

record 'c world =
  files :: "string \<rightharpoonup> 'c"
  printed :: "msg list"
  imwrite_calls :: "(string \<times> image) list"

text \<open>\<^verbatim>\<open>cv2.imwrite\<close> raises, returns false without writing, or writes the file.\<close>

datatype 'c write_result = Raised | ReturnedFalse | Written 'c

text \<open>
  The external collaborators: the OpenCV primitives, the decoder behind
  \<^verbatim>\<open>load_dicom_file\<close>, \<^verbatim>\<open>cv2.imwrite\<close>, \<^verbatim>\<open>os.listdir\<close>, and standard output.
  \<^verbatim>\<open>print\<close> raises \<^verbatim>\<open>UnicodeEncodeError\<close> when standard output cannot encode
  the line; \<open>stdout_ok\<close> tells for which lines it can.
\<close>

record 'c env =
  cv :: cv2
  decode :: "'c \<Rightarrow> ndarray option"
  imwrite :: "string \<Rightarrow> image \<Rightarrow> 'c write_result"
  listdir :: "string \<Rightarrow> string list option"
  stdout_ok :: "msg \<Rightarrow> bool"

text \<open>
  A call either returns, or an exception leaves it uncaught; both carry the state
  of the world at that moment.
\<close>

datatype 'c run = Returned "'c world" | Uncaught "'c world"

definition world_of :: "'c run \<Rightarrow> 'c world" where
  "world_of r = (case r of Returned st \<Rightarrow> st | Uncaught st \<Rightarrow> st)"

text \<open>\<^verbatim>\<open>print\<close>: \<open>None\<close> when it raises.\<close>

definition say :: "'c env \<Rightarrow> msg \<Rightarrow> 'c world \<Rightarrow> 'c world option" where
  "say E m st = (if stdout_ok E m then Some (st\<lparr>printed := printed st @ [m]\<rparr>) else None)"

text \<open>
  Lines 10-31. Reading and normalising the pixel data is the decoder's work
  (\<open>decode\<close> stands for lines 13-27 on the content of the file); a missing file
  or any exception gives \<^verbatim>\<open>None\<close>. The \<^verbatim>\<open>print\<close> of line 30 is made in
  \<open>process_file\<close> below.
\<close>

definition load_dicom_file :: "'c env \<Rightarrow> (string \<rightharpoonup> 'c) \<Rightarrow> string \<Rightarrow> ndarray option" where
  "load_dicom_file E fs file_path =
     (case fs file_path of
        None \<Rightarrow> None
      | Some content \<Rightarrow> decode E content)"

text \<open>
  Lines 112-113, the handler of the \<^verbatim>\<open>try\<close> around the write: its own
  \<^verbatim>\<open>print\<close> is not guarded.
\<close>

definition save_failed :: "'c env \<Rightarrow> 'c world \<Rightarrow> 'c run" where
  "save_failed E st =
     (case say E CouldNotSave st of
        None \<Rightarrow> Uncaught st
      | Some st' \<Rightarrow> Returned st')"

text \<open>
  Lines 96-113. The \<^verbatim>\<open>print\<close> of line 98 is outside every \<^verbatim>\<open>try\<close>, and those of
  lines 30, 93 and 113 are inside \<^verbatim>\<open>except\<close> handlers: when one of them raises,
  the exception leaves \<^verbatim>\<open>process_file\<close>. The \<^verbatim>\<open>print\<close> of line 111 is inside
  the \<^verbatim>\<open>try\<close> of line 109, so its exception is handled at line 112.
\<close>

definition process_file :: "'c env \<Rightarrow> 'c world \<Rightarrow> string \<Rightarrow> 'c run" where
  "process_file E st file_path =
     (case say E (Processing file_path) st of
        None \<Rightarrow> Uncaught st
      | Some st1 \<Rightarrow>
          (case load_dicom_file E (files st1) file_path of
             None \<Rightarrow>
               (case say E (ErrorLoading file_path) st1 of
                  None \<Rightarrow> Uncaught st1
                | Some st2 \<Rightarrow> Returned st2)
           | Some img \<Rightarrow>
               (case adaptive_preprocessing (cv E) img of
                  None \<Rightarrow>
                    (case say E PreprocessingFailed st1 of
                       None \<Rightarrow> Uncaught st1
                     | Some st2 \<Rightarrow> Returned st2)
                | Some result \<Rightarrow>
                    (let out = out_path file_path;
                         st2 = st1\<lparr>imwrite_calls := imwrite_calls st1 @ [(out, result)]\<rparr>
                     in case imwrite E out result of
                          Raised \<Rightarrow> save_failed E st2
                        | ReturnedFalse \<Rightarrow>
                            (case say E (Saved out) st2 of
                               None \<Rightarrow> save_failed E st2
                             | Some st3 \<Rightarrow> Returned st3)
                        | Written content \<Rightarrow>
                            (let st3 = st2\<lparr>files := (files st2)(out \<mapsto> content)\<rparr>
                             in case say E (Saved out) st3 of
                                  None \<Rightarrow> save_failed E st3
                                | Some st4 \<Rightarrow> Returned st4)))))"

text \<open>
  Lines 124-128: the loop over the sample files. Neither the call of
  \<^verbatim>\<open>process_file\<close> nor the \<^verbatim>\<open>print\<close> of line 128 is inside a \<^verbatim>\<open>try\<close>: an
  exception that leaves either of them ends the loop.
\<close>

fun run_batch :: "'c env \<Rightarrow> 'c world \<Rightarrow> string list \<Rightarrow> 'c run" where
  "run_batch E st [] = Returned st"
| "run_batch E st (file # rest) =
     (if files st file \<noteq> None
      then (case process_file E st file of
              Uncaught st' \<Rightarrow> Uncaught st'
            | Returned st' \<Rightarrow> run_batch E st' rest)
      else (case say E (FileNotFound file) st of
              None \<Rightarrow> Uncaught st
            | Some st' \<Rightarrow> run_batch E st' rest))"

text \<open>
  Lines 116-128, with the directory as a parameter. The \<^verbatim>\<open>print\<close> of line 121 is
  inside an \<^verbatim>\<open>except\<close> handler.
\<close>

definition main :: "'c env \<Rightarrow> 'c world \<Rightarrow> string \<Rightarrow> 'c run" where
  "main E st image_dir =
     (case listdir E image_dir of
        None \<Rightarrow>
          (case say E (FailedToList image_dir) st of
             None \<Rightarrow> Uncaught st
           | Some st' \<Rightarrow> run_batch E st' [])
      | Some names \<Rightarrow>
          run_batch E st (map (path_join image_dir) (filter has_image_ext names)))"

text \<open>
  The result that a file yields: the preprocessed image of its decoded content.
  A valid file of a batch is one that yields a result which can be written.
\<close>

definition file_result :: "'c env \<Rightarrow> (string \<rightharpoonup> 'c) \<Rightarrow> string \<Rightarrow> image option" where
  "file_result E fs file_path =
     (case load_dicom_file E fs file_path of
        None \<Rightarrow> None
      | Some img \<Rightarrow> adaptive_preprocessing (cv E) img)"

definition valid_file :: "'c env \<Rightarrow> (string \<rightharpoonup> 'c) \<Rightarrow> string \<Rightarrow> bool" where
  "valid_file E fs file_path =
     (case file_result E fs file_path of
        None \<Rightarrow> False
      | Some result \<Rightarrow>
          (case imwrite E (out_path file_path) result of
             Written content \<Rightarrow> True
           | _ \<Rightarrow> False))"

subsection \<open>Stand-ins for the external parts\<close>

text \<open>
  Concrete collaborators on which the theorems are instantiated: every filter
  returns its input, the Laplacian is flat, a file holds its decoded array
  (\<open>ArrOther\<close> for content that does not decode), every write succeeds, and
  standard output takes every line.
\<close>

definition stub_cv2 :: cv2 where
  "stub_cv2 =
     \<lparr>cvtColor_BGR2GRAY = (\<lambda>c. Some (map (map hd) c)),
      Laplacian_64F = (\<lambda>img. Some [[0]]),
      clahe_apply = (\<lambda>clip grid img. Some img),
      bilateralFilter = (\<lambda>img d sc ss. Some img),
      fastNlMeansDenoising = (\<lambda>img h t s. Some img),
      GaussianBlur = (\<lambda>img k sigma. Some img),
      addWeighted = (\<lambda>a alpha b beta gamma. Some a)\<rparr>"



text \<open>
  A standard output that encodes ASCII text only in file names, as a strict UTF-8
  terminal does with a name that holds an undecodable byte; and a directory of two
  valid image files, the first of which has such a name.
\<close>

definition ascii :: "string \<Rightarrow> bool" where
  "ascii s = list_all (\<lambda>ch. (of_char ch :: nat) < 128) s"

definition names_printable :: "msg \<Rightarrow> bool" where
  "names_printable m =
     (case m of
        Processing p \<Rightarrow> ascii p
      | ErrorLoading p \<Rightarrow> ascii p
      | Saved p \<Rightarrow> ascii p
      | FailedToList p \<Rightarrow> ascii p
      | FileNotFound p \<Rightarrow> ascii p
      | _ \<Rightarrow> True)"

definition strict_env :: "ndarray env" where
  "strict_env =
     \<lparr>cv = stub_cv2,
      decode = (\<lambda>content. case content of ArrOther \<Rightarrow> None | _ \<Rightarrow> Some content),
      imwrite = (\<lambda>p img. Written (Arr2 img)),
      listdir = (\<lambda>d. Some [CHR 0xFF # ''.dcm'', ''c.dcm'']),
      stdout_ok = names_printable\<rparr>"

definition strict_world :: "ndarray world" where
  "strict_world =
     \<lparr>files = [''d/'' @ CHR 0xFF # ''.dcm'' \<mapsto> Arr2 (replicate 40 (replicate 40 7)),
               ''d/c.dcm'' \<mapsto> Arr2 (replicate 40 (replicate 40 7))],
      printed = [],
      imwrite_calls = []\<rparr>"

section \<open>Properties\<close>

subsection \<open>Slices and patches\<close>

lemma shape_ok_width: "shape_ok h w img \<Longrightarrow> 0 < h \<Longrightarrow> width img = w"
  by (cases img) (auto simp: shape_ok_def width_def)

lemma shape_ok_row: "shape_ok h w img \<Longrightarrow> row \<in> set img \<Longrightarrow> length row = w"
  by (auto simp: shape_ok_def list_all_iff)

lemma shape_ok_replicate: "shape_ok h w (replicate h (replicate w v))"
  by (simp add: shape_ok_def list_all_iff)

lemma const_img_replicate: "const_img v (replicate h (replicate w v))"
  by (simp add: const_img_def list_all_iff)

lemma py_slice_nat:
  assumes "a + k \<le> length xs"
  shows "py_slice (int a) (int (a + k)) xs = take k (drop a xs)"
proof -
  have "py_index (int a) (length xs) = a" "py_index (int (a + k)) (length xs) = a + k"
    using assms by (simp_all add: py_index_def)
  then show ?thesis by (simp add: py_slice_def Let_def)
qed

lemma slice2_block:
  assumes "shape_ok h w img" "r + 40 \<le> h" "c + 40 \<le> w"
  shows "slice2 img (int r) (int (r + 40)) (int c) (int (c + 40)) = block img r c"
proof -
  have len: "length img = h" using assms(1) by (simp add: shape_ok_def)
  have rows: "py_slice (int r) (int (r + 40)) img = take 40 (drop r img)"
    using assms(2) len by (intro py_slice_nat) simp
  have cols: "py_slice (int c) (int (c + 40)) row = take 40 (drop c row)"
    if "row \<in> set (take 40 (drop r img))" for row
  proof -
    have "row \<in> set img" using that by (meson in_set_dropD in_set_takeD)
    then have "length row = w" by (rule shape_ok_row [OF assms(1)])
    then show ?thesis using assms(3) by (intro py_slice_nat) simp
  qed
  show ?thesis
    unfolding slice2_def block_def rows using cols by simp
qed

lemma patches_spec:
  assumes "shape_ok h w img" "40 \<le> h" "40 \<le> w"
  shows "patches img = spec_patches img"
proof -
  have hh: "height img = h" using assms(1) by (simp add: shape_ok_def height_def)
  have ww: "width img = w" using assms(1,2) by (intro shape_ok_width) auto
  have b: "slice2 img r0 r1 c0 c1 = block img r c"
    if "r + 40 \<le> h" "c + 40 \<le> w" "r0 = int r" "r1 = int (r + 40)" "c0 = int c" "c1 = int (c + 40)"
    for r c r0 r1 c0 c1
    using slice2_block [OF assms(1) that(1,2)] that(3-6) by simp
  have p0: "slice2 img 0 40 0 40 = block img 0 0"
    using assms(2,3) by (intro b) simp_all
  have p1: "slice2 img 0 40 (int w - 40) (int w) = block img 0 (w - 40)"
    using assms(2,3) by (intro b) simp_all
  have p2: "slice2 img (int h - 40) (int h) 0 40 = block img (h - 40) 0"
    using assms(2,3) by (intro b) simp_all
  have p3: "slice2 img (int h - 40) (int h) (int w - 40) (int w) = block img (h - 40) (w - 40)"
    using assms(2,3) by (intro b) simp_all
  have p4: "slice2 img (int h div 2 - 40 div 2) (int h div 2 + 40 div 2) 0 40
            = block img (h div 2 - 20) 0"
    using assms(2,3) by (intro b) (simp_all; arith)+
  have p5: "slice2 img (int h div 2 - 40 div 2) (int h div 2 + 40 div 2) (int w - 40) (int w)
            = block img (h div 2 - 20) (w - 40)"
    using assms(2,3) by (intro b) (simp_all; arith)+
  have p6: "slice2 img 0 40 (int w div 2 - 40 div 2) (int w div 2 + 40 div 2)
            = block img 0 (w div 2 - 20)"
    using assms(2,3) by (intro b) (simp_all; arith)+
  have p7: "slice2 img (int h - 40) (int h) (int w div 2 - 40 div 2) (int w div 2 + 40 div 2)
            = block img (h - 40) (w div 2 - 20)"
    using assms(2,3) by (intro b) (simp_all; arith)+
  show ?thesis
    unfolding patches_def spec_patches_def Let_def hh ww
    by (simp only: p0 p1 p2 p3 p4 p5 p6 p7)
qed

lemma py_index_le: "py_index i n \<le> n"
  by (auto simp: py_index_def max_def)

lemma slice2_sub_block:
  assumes "shape_ok h w img"
  shows "slice2 img r0 r1 c0 c1 =
         sub_block img (py_index r0 h) (py_index r1 h - py_index r0 h)
                       (py_index c0 w) (py_index c1 w - py_index c0 w)"
proof -
  have len: "length img = h" using assms by (simp add: shape_ok_def)
  have "py_slice c0 c1 row = take (py_index c1 w - py_index c0 w) (drop (py_index c0 w) row)"
    if "row \<in> set (py_slice r0 r1 img)" for row
  proof -
    have "row \<in> set img"
      using that unfolding py_slice_def Let_def by (meson in_set_dropD in_set_takeD)
    then have "length row = w" by (rule shape_ok_row [OF assms])
    then show ?thesis by (simp add: py_slice_def Let_def)
  qed
  then have "map (py_slice c0 c1) (py_slice r0 r1 img) =
        map (\<lambda>row. take (py_index c1 w - py_index c0 w) (drop (py_index c0 w) row))
            (py_slice r0 r1 img)"
    by simp
  then show ?thesis
    unfolding slice2_def sub_block_def by (simp add: py_slice_def Let_def len)
qed

text \<open>The three index pairs that the patch list uses, on an axis of length \<open>n > 0\<close>.\<close>

lemma span_first:
  assumes "0 < n"
  shows "py_index 0 n < py_index 40 n" "py_index 40 n - py_index 0 n \<le> min 40 n"
  using assms by (simp_all add: py_index_def)

lemma span_hi:
  assumes "0 < n"
  shows "py_index (int n - 40) n < py_index (int n) n"
        "py_index (int n) n - py_index (int n - 40) n \<le> min 40 n"
  using assms by (auto simp: py_index_def)

lemma span_mid:
  assumes "0 < n"
  shows "py_index (int n div 2 - 40 div 2) n < py_index (int n div 2 + 40 div 2) n"
        "py_index (int n div 2 + 40 div 2) n - py_index (int n div 2 - 40 div 2) n \<le> min 40 n"
  using assms by (auto simp: py_index_def min_def max_def; linarith)+

lemma slice2_inside:
  assumes ok: "shape_ok h w img"
    and r: "py_index r0 h < py_index r1 h" "py_index r1 h - py_index r0 h \<le> min 40 h"
    and c: "py_index c0 w < py_index c1 w" "py_index c1 w - py_index c0 w \<le> min 40 w"
  shows "\<exists>r j c k. slice2 img r0 r1 c0 c1 = sub_block img r j c k
           \<and> 0 < j \<and> j \<le> min 40 h \<and> r + j \<le> h
           \<and> 0 < k \<and> k \<le> min 40 w \<and> c + k \<le> w"
proof (intro exI conjI)
  show "slice2 img r0 r1 c0 c1 =
        sub_block img (py_index r0 h) (py_index r1 h - py_index r0 h)
                      (py_index c0 w) (py_index c1 w - py_index c0 w)"
    by (rule slice2_sub_block [OF ok])
  show "0 < py_index r1 h - py_index r0 h" using r(1) by simp
  show "py_index r1 h - py_index r0 h \<le> min 40 h" by (rule r(2))
  show "py_index r0 h + (py_index r1 h - py_index r0 h) \<le> h"
    using r(1) py_index_le [of r1 h] by simp
  show "0 < py_index c1 w - py_index c0 w" using c(1) by simp
  show "py_index c1 w - py_index c0 w \<le> min 40 w" by (rule c(2))
  show "py_index c0 w + (py_index c1 w - py_index c0 w) \<le> w"
    using c(1) py_index_le [of c1 w] by simp
qed

lemma patches_inside:
  assumes ok: "shape_ok h w img" and pos: "0 < h" "0 < w" and p: "p \<in> set (patches img)"
  shows "\<exists>r j c k. p = sub_block img r j c k
           \<and> 0 < j \<and> j \<le> min 40 h \<and> r + j \<le> h
           \<and> 0 < k \<and> k \<le> min 40 w \<and> c + k \<le> w"
proof -
  have hh: "height img = h" using ok by (simp add: shape_ok_def height_def)
  have ww: "width img = w" using ok pos(1) by (rule shape_ok_width)
  note rs = span_first [OF pos(1)] span_hi [OF pos(1)] span_mid [OF pos(1)]
  note cs = span_first [OF pos(2)] span_hi [OF pos(2)] span_mid [OF pos(2)]
  from p consider
      "p = slice2 img 0 40 0 40"
    | "p = slice2 img 0 40 (int w - 40) (int w)"
    | "p = slice2 img (int h - 40) (int h) 0 40"
    | "p = slice2 img (int h - 40) (int h) (int w - 40) (int w)"
    | "p = slice2 img (int h div 2 - 40 div 2) (int h div 2 + 40 div 2) 0 40"
    | "p = slice2 img (int h div 2 - 40 div 2) (int h div 2 + 40 div 2) (int w - 40) (int w)"
    | "p = slice2 img 0 40 (int w div 2 - 40 div 2) (int w div 2 + 40 div 2)"
    | "p = slice2 img (int h - 40) (int h) (int w div 2 - 40 div 2) (int w div 2 + 40 div 2)"
    unfolding patches_def Let_def hh ww by auto
  then show ?thesis
  proof cases
    case 1 then show ?thesis using slice2_inside [OF ok rs(1,2) cs(1,2)] by simp
  next
    case 2 then show ?thesis using slice2_inside [OF ok rs(1,2) cs(3,4)] by simp
  next
    case 3 then show ?thesis using slice2_inside [OF ok rs(3,4) cs(1,2)] by simp
  next
    case 4 then show ?thesis using slice2_inside [OF ok rs(3,4) cs(3,4)] by simp
  next
    case 5 then show ?thesis using slice2_inside [OF ok rs(5,6) cs(1,2)] by simp
  next
    case 6 then show ?thesis using slice2_inside [OF ok rs(5,6) cs(3,4)] by simp
  next
    case 7 then show ?thesis using slice2_inside [OF ok rs(1,2) cs(5,6)] by simp
  next
    case 8 then show ?thesis using slice2_inside [OF ok rs(3,4) cs(5,6)] by simp
  qed
qed

lemma sub_block_rows:
  assumes "shape_ok h w img" "r + j \<le> h" "c + k \<le> w"
  shows "length (sub_block img r j c k) = j"
    and "row \<in> set (sub_block img r j c k) \<Longrightarrow> length row = k"
proof -
  have len: "length img = h" using assms(1) by (simp add: shape_ok_def)
  show "length (sub_block img r j c k) = j"
    using assms(2) len by (simp add: sub_block_def)
  assume "row \<in> set (sub_block img r j c k)"
  then obtain row' where row': "row' \<in> set (take j (drop r img))" "row = take k (drop c row')"
    by (auto simp: sub_block_def)
  from row'(1) have "row' \<in> set img" by (meson in_set_dropD in_set_takeD)
  then have "length row' = w" by (rule shape_ok_row [OF assms(1)])
  then show "length row = k" using assms(3) row'(2) by simp
qed

lemma length_concat_const:
  "(\<And>xs. xs \<in> set xss \<Longrightarrow> length xs = k) \<Longrightarrow> length (concat xss) = length xss * k"
  by (induction xss) auto

lemma sub_block_size:
  assumes "shape_ok h w img" "r + j \<le> h" "c + k \<le> w"
  shows "length (intensities (sub_block img r j c k)) = j * k"
  using length_concat_const [of "sub_block img r j c k" k] sub_block_rows [OF assms]
  by (simp add: intensities_def)

lemma np_std_Some:
  "intensities p \<noteq> [] \<Longrightarrow> np_std p = Some (intensity_std p)"
  by (simp add: np_std_def np_mean_def intensity_std_def Let_def)

lemma those_map_Some:
  "(\<And>x. x \<in> set xs \<Longrightarrow> f x = Some (g x)) \<Longrightarrow> those (map f xs) = Some (map g xs)"
  by (induction xs) auto

lemma length_patches: "length (patches img) = 8"
  by (simp add: patches_def Let_def)

lemma noise_level_Some:
  assumes "\<And>p. p \<in> set (patches img) \<Longrightarrow> intensities p \<noteq> []"
  shows "noise_level img = Some (sum_list (map intensity_std (patches img)) / 8)"
proof -
  have "those (map np_std (patches img)) = Some (map intensity_std (patches img))"
    using assms by (intro those_map_Some np_std_Some)
  moreover have "map intensity_std (patches img) \<noteq> []"
    using length_patches [of img] by auto
  ultimately show ?thesis
    by (simp add: noise_level_def np_mean_def length_patches)
qed

lemma patches_nonempty:
  assumes ok: "shape_ok h w img" and pos: "0 < h" "0 < w" and p: "p \<in> set (patches img)"
  shows "intensities p \<noteq> []"
proof -
  from patches_inside [OF ok pos p] obtain r j c k where
    *: "p = sub_block img r j c k" "0 < j" "r + j \<le> h" "0 < k" "c + k \<le> w"
    by blast
  have "length (intensities p) = j * k"
    unfolding *(1) by (rule sub_block_size [OF ok *(3,5)])
  then show ?thesis using *(2,4) by auto
qed

lemma block_sub_block: "block img r c = sub_block img r 40 c 40"
  by (simp add: block_def sub_block_def)

lemma spec_patches_shape:
  assumes ok: "shape_ok h w img" and big: "40 \<le> h" "40 \<le> w"
    and p: "p \<in> set (spec_patches img)"
  shows "length p = 40 \<and> list_all (\<lambda>row. length row = 40) p"
proof -
  have hh: "height img = h" using ok by (simp add: shape_ok_def height_def)
  have ww: "width img = w" using ok big(1) by (intro shape_ok_width) auto
  from p obtain r c where rc: "p = sub_block img r 40 c 40" "r + 40 \<le> h" "c + 40 \<le> w"
    unfolding spec_patches_def Let_def hh ww block_sub_block using big
    by (auto; fastforce)
  show ?thesis
    unfolding rc(1) list_all_iff using sub_block_rows [OF ok rc(2,3)] by blast
qed

lemma sum_list_all_zero:
  "(\<And>x. x \<in> set xs \<Longrightarrow> f x = (0::real)) \<Longrightarrow> sum_list (map f xs) = 0"
  by (induction xs) auto

lemma intensity_std_const:
  assumes "\<And>x. x \<in> set (intensities p) \<Longrightarrow> x = a" "intensities p \<noteq> []"
  shows "intensity_std p = 0"
proof -
  let ?xs = "intensities p"
  have rep: "?xs = replicate (length ?xs) a"
    using assms(1) by (metis replicate_length_same)
  have "sum_list ?xs = real (length ?xs) * a"
    by (subst rep) (simp add: sum_list_replicate)
  then have m: "sum_list ?xs / real (length ?xs) = a"
    using assms(2) by simp
  have "sum_list (map (\<lambda>x. (x - a)\<^sup>2) ?xs) = 0"
    using assms(1) by (intro sum_list_all_zero) simp
  then show ?thesis
    by (simp add: intensity_std_def Let_def m)
qed

lemma sub_block_pixels:
  "x \<in> set (concat (sub_block img r j c k)) \<Longrightarrow> x \<in> set (concat img)"
  by (auto simp: sub_block_def dest!: in_set_takeD in_set_dropD)

lemma noise_level_const:
  assumes ok: "shape_ok h w img" and pos: "0 < h" "0 < w" and c: "const_img v img"
  shows "noise_level img = Some 0"
proof -
  have flat: "x = v" if "x \<in> set (concat img)" for x
    using c that by (auto simp: const_img_def list_all_iff)
  have z: "intensity_std p = 0" if p: "p \<in> set (patches img)" for p
  proof -
    from patches_inside [OF ok pos p] obtain r j c k where *: "p = sub_block img r j c k"
      by blast
    have "y = real (unat v)" if "y \<in> set (intensities p)" for y
      using that flat sub_block_pixels unfolding * intensities_def by fastforce
    then show ?thesis
      using patches_nonempty [OF ok pos p] by (intro intensity_std_const)
  qed
  have "sum_list (map intensity_std (patches img)) = 0"
    using z by (intro sum_list_all_zero)
  then show ?thesis
    using noise_level_Some [of img] patches_nonempty [OF ok pos] by simp
qed

lemma np_percentile_const:
  assumes "\<And>x. x \<in> set xs \<Longrightarrow> x = a" "xs \<noteq> []" "0 \<le> q" "q \<le> 100"
  shows "np_percentile xs q = Some a"
proof -
  let ?n = "length (sort xs)"
  let ?v = "real (?n - 1) * (q / 100)"
  have n: "?n = length xs" "0 < length xs" using assms(2) by auto
  have "0 \<le> ?v" using assms(3) by simp
  have "q / 100 \<le> 1" using assms(4) by simp
  then have "?v \<le> real (?n - 1) * 1"
    by (intro mult_left_mono) auto
  then have "?v \<le> real (?n - 1)" by simp
  then have "\<lfloor>?v\<rfloor> \<le> int (?n - 1)" by linarith
  then have i: "nat \<lfloor>?v\<rfloor> < ?n" using n by linarith
  have "min (nat \<lfloor>?v\<rfloor> + 1) (?n - 1) \<le> ?n - 1" by (rule min.cobounded2)
  then have j: "min (nat \<lfloor>?v\<rfloor> + 1) (?n - 1) < ?n" using n by linarith
  have el: "sort xs ! k = a" if "k < ?n" for k
    using assms(1) [of "sort xs ! k"] nth_mem [OF that] by simp
  show ?thesis
    using assms(2) el [OF i] el [OF j] by (simp add: np_percentile_def Let_def)
qed

lemma intensities_size:
  assumes "shape_ok h w img"
  shows "length (intensities img) = h * w"
proof -
  have "length (concat img) = length img * w"
    using shape_ok_row [OF assms] by (intro length_concat_const)
  then show ?thesis using assms by (simp add: intensities_def shape_ok_def)
qed

lemma intensities_const:
  assumes "const_img v img" "x \<in> set (intensities img)"
  shows "x = real (unat v)"
  using assms by (auto simp: const_img_def list_all_iff intensities_def)


subsection \<open>Metric estimator\<close>

text \<open>
  C1, as the code has it: an image with height or width below 40 (and neither zero)
  is not refused. Every slice bound is taken by Python's rules, so each of the
  eight patches is a non-empty sub-block that lies inside the image, with at most
  40 rows and 40 columns, and the noise level is the mean of the standard
  deviations of these cut patches. No sample outside the image is read.
\<close>

theorem small_image_patches_cut:
  assumes "shape_ok h w img" "0 < h" "0 < w" "h < 40 \<or> w < 40"
  shows "noise_level img = Some (sum_list (map intensity_std (patches img)) / 8)
       \<and> (\<forall>p \<in> set (patches img). \<exists>r j c k.
             p = sub_block img r j c k
             \<and> 0 < j \<and> j \<le> min 40 h \<and> r + j \<le> h
             \<and> 0 < k \<and> k \<le> min 40 w \<and> c + k \<le> w)"
  using noise_level_Some [of img] patches_nonempty [OF assms(1-3)] patches_inside [OF assms(1-3)]
  by blast

theorem small_image_patches_cut_witness:
  "shape_ok 10 10 (replicate 10 (replicate 10 0)) \<and> (0::nat) < 10 \<and> ((10::nat) < 40 \<or> (10::nat) < 40)
   \<and> noise_level (replicate 10 (replicate 10 0))
       = Some (sum_list (map intensity_std (patches (replicate 10 (replicate 10 0)))) / 8)"
  using small_image_patches_cut [OF shape_ok_replicate, of 10 10 0]
  by (simp add: shape_ok_replicate)

text \<open>
  C1, as stated, fails: on a 10 by 10 image the estimator returns a noise level
  instead of failing.
\<close>

theorem small_image_not_refused:
  "height (replicate 10 (replicate 10 0)) < 40
   \<and> noise_level (replicate 10 (replicate 10 0)) = Some 0"
  using noise_level_const [OF shape_ok_replicate _ _ const_img_replicate, of 10 10 0]
  by (simp add: height_def)

text \<open>
  C3: for every image with height and width at least 40, the patch list of the
  code is the list of eight 40 by 40 blocks of the specification (four corners,
  midpoints of the left and right edges, midpoints of the top and bottom edges,
  centred by floor division), and the noise level is the mean of their intensity
  standard deviations. When the height is exactly 40 the two left and right
  midpoint patches span all rows; when the width is exactly 40 the two top and
  bottom midpoint patches span all columns.
\<close>

theorem noise_level_eight_patches:
  assumes "shape_ok h w img" "40 \<le> h" "40 \<le> w"
  shows "patches img = spec_patches img
       \<and> list_all (\<lambda>p. length p = 40 \<and> list_all (\<lambda>row. length row = 40) p) (patches img)
       \<and> noise_level img = Some (sum_list (map intensity_std (spec_patches img)) / 8)
       \<and> (h = 40 \<longrightarrow> patches img ! 4 = map (take 40) img
                   \<and> patches img ! 5 = map (\<lambda>row. take 40 (drop (w - 40) row)) img)
       \<and> (w = 40 \<longrightarrow> patches img ! 6 = take 40 img
                   \<and> patches img ! 7 = drop (h - 40) img)"
proof -
  have hh: "height img = h" using assms(1) by (simp add: shape_ok_def height_def)
  have len: "length img = h" using assms(1) by (simp add: shape_ok_def)
  have ww: "width img = w" using assms(1,2) by (intro shape_ok_width) auto
  have pos: "0 < h" "0 < w" using assms(2,3) by auto
  have eq: "patches img = spec_patches img"
    using assms by (rule patches_spec)
  have shp: "list_all (\<lambda>p. length p = 40 \<and> list_all (\<lambda>row. length row = 40) p) (patches img)"
    unfolding eq using spec_patches_shape [OF assms] by (simp add: list_all_iff)
  have nl: "noise_level img = Some (sum_list (map intensity_std (spec_patches img)) / 8)"
    using noise_level_Some [of img] patches_nonempty [OF assms(1) pos] eq by simp
  have rows40: "take 40 (drop 0 row) = row" if "row \<in> set img" "w = 40" for row
    using shape_ok_row [OF assms(1) that(1)] that(2) by simp
  have dh: "h = 40 \<Longrightarrow> patches img ! 4 = map (take 40) img
                   \<and> patches img ! 5 = map (\<lambda>row. take 40 (drop (w - 40) row)) img"
    unfolding eq spec_patches_def Let_def hh ww block_def using len by simp
  have dw: "patches img ! 6 = take 40 img \<and> patches img ! 7 = drop (h - 40) img" if "w = 40"
  proof -
    have a: "map (\<lambda>row. take 40 (drop 0 row)) xs = xs" if "set xs \<subseteq> set img" for xs
      using that rows40 \<open>w = 40\<close> by (intro map_idI) auto
    have "set (take 40 img) \<subseteq> set img" by (rule set_take_subset)
    moreover have "set (take 40 (drop (h - 40) img)) \<subseteq> set img"
      by (meson in_set_dropD in_set_takeD subsetI)
    moreover have "take 40 (drop (h - 40) img) = drop (h - 40) img"
      using len assms(2) by simp
    ultimately show ?thesis
      unfolding eq spec_patches_def Let_def hh ww block_def using \<open>w = 40\<close> a
      by simp
  qed
  show ?thesis using eq shp nl dh dw by blast
qed

theorem noise_level_eight_patches_witness:
  "shape_ok 40 45 (replicate 40 (replicate 45 0)) \<and> (40::nat) \<le> 40 \<and> (40::nat) \<le> 45
   \<and> patches (replicate 40 (replicate 45 0)) = spec_patches (replicate 40 (replicate 45 0))
   \<and> patches (replicate 40 (replicate 45 0)) ! 4 = map (take 40) (replicate 40 (replicate 45 0))"
proof -
  have ok: "shape_ok 40 45 (replicate 40 (replicate 45 0))"
    by (rule shape_ok_replicate)
  have b: "(40::nat) \<le> 40" "(40::nat) \<le> 45" by simp_all
  from noise_level_eight_patches [OF ok b] ok b show ?thesis by blast
qed

text \<open>
  C7: for every (non-empty) image the contrast is the value at the 99th percentile
  of all intensities minus the value at the 1st percentile; for a constant image
  it is 0.
\<close>

theorem contrast_percentile_spread:
  assumes "shape_ok h w img" "0 < h" "0 < w"
  shows "\<exists>hi lo. np_percentile (intensities img) 99 = Some hi
           \<and> np_percentile (intensities img) 1 = Some lo
           \<and> contrast img = Some (hi - lo)
           \<and> (const_img v img \<longrightarrow> contrast img = Some 0)"
proof -
  let ?xs = "intensities img"
  have ne: "?xs \<noteq> []"
    using intensities_size [OF assms(1)] assms(2,3) by auto
  obtain hi where hi: "np_percentile ?xs 99 = Some hi"
    using ne by (simp add: np_percentile_def Let_def)
  obtain lo where lo: "np_percentile ?xs 1 = Some lo"
    using ne by (simp add: np_percentile_def Let_def)
  have c: "contrast img = Some (hi - lo)"
    by (simp add: contrast_def hi lo)
  have "contrast img = Some 0" if "const_img v img"
  proof -
    have "np_percentile ?xs 99 = Some (real (unat v))" "np_percentile ?xs 1 = Some (real (unat v))"
      using intensities_const [OF that] ne by (intro np_percentile_const; simp)+
    then show ?thesis by (simp add: contrast_def)
  qed
  with hi lo c show ?thesis by blast
qed

theorem contrast_percentile_spread_witness:
  "shape_ok 3 4 (replicate 3 (replicate 4 9)) \<and> (0::nat) < 3 \<and> (0::nat) < 4
   \<and> const_img 9 (replicate 3 (replicate 4 9))
   \<and> contrast (replicate 3 (replicate 4 9)) = Some 0"
proof -
  have ok: "shape_ok 3 4 (replicate 3 (replicate 4 9))" by (rule shape_ok_replicate)
  have c: "const_img 9 (replicate 3 (replicate 4 9))" by (rule const_img_replicate)
  have p: "(0::nat) < 3" "(0::nat) < 4" by simp_all
  from contrast_percentile_spread [OF ok p, of 9] ok c p show ?thesis by blast
qed

subsection \<open>Parameter policy\<close>

text \<open>
  C2: for every non-negative sharpness value the sharpening strength is piecewise:
  below 20 it is 2.0, from 20 up to but excluding 80 it is 1.7, above 300 it is 0.7,
  and from 80 to 300 inclusive it is 1.1. The six boundary inputs 19.99, 20.0, 79.99,
  80.0, 300.0 and 300.01 give 2.0, 1.7, 1.7, 1.1, 1.1 and 0.7.
\<close>

theorem strength_piecewise:
  assumes "0 \<le> s"
  shows "(s < 20 \<longrightarrow> strength s = 2.0)
       \<and> (20 \<le> s \<and> s < 80 \<longrightarrow> strength s = 1.7)
       \<and> (300 < s \<longrightarrow> strength s = 0.7)
       \<and> (80 \<le> s \<and> s \<le> 300 \<longrightarrow> strength s = 1.1)
       \<and> map strength [19.99, 20.0, 79.99, 80.0, 300.0, 300.01]
           = [2.0, 1.7, 1.7, 1.1, 1.1, 0.7]"
  by (simp add: strength_def)

theorem strength_piecewise_witness:
  "(0::real) \<le> 10 \<and> (10::real) < 20 \<and> strength 10 = 2.0
   \<and> (20::real) \<le> 50 \<and> (50::real) < 80 \<and> strength 50 = 1.7
   \<and> (300::real) < 400 \<and> strength 400 = 0.7
   \<and> (80::real) \<le> 100 \<and> (100::real) \<le> 300 \<and> strength 100 = 1.1"
  using strength_piecewise [of 10] strength_piecewise [of 50]
        strength_piecewise [of 400] strength_piecewise [of 100]
  by simp

text \<open>
  C5: for every non-negative contrast the CLAHE clip limit is the contrast divided
  by 40, clamped to the interval from 1.0 to 3.0; so it always lies in that interval,
  contrast 0 gives 1.0 and contrast 1000 gives 3.0.
\<close>

theorem clahe_clip_clamped:
  assumes "0 \<le> c"
  shows "clahe_clip c = (if c / 40 < 1 then 1 else if 3 < c / 40 then 3 else c / 40)
       \<and> 1 \<le> clahe_clip c \<and> clahe_clip c \<le> 3
       \<and> clahe_clip 0 = 1 \<and> clahe_clip 1000 = 3"
  by (simp add: clahe_clip_def np_clip_def min_def max_def)

theorem clahe_clip_clamped_witness:
  "(0::real) \<le> 80 \<and> clahe_clip 80 = 2 \<and> 1 \<le> clahe_clip 80 \<and> clahe_clip 80 \<le> 3"
  using clahe_clip_clamped [of 80] by simp

text \<open>
  C6: for every non-negative noise level the denoising strength is the noise level
  times 0.6, clamped to the interval from 5.0 to 15.0, so it always lies in that
  interval; for a constant image the estimated noise level is 0 and the denoising
  strength is 5.0.
\<close>

theorem denoise_strength_clamped:
  assumes "0 \<le> n"
  shows "denoise_strength n
           = (if n * 0.6 < 5 then 5 else if 15 < n * 0.6 then 15 else n * 0.6)
       \<and> 5 \<le> denoise_strength n \<and> denoise_strength n \<le> 15
       \<and> (shape_ok h w img \<and> 0 < h \<and> 0 < w \<and> const_img v img \<longrightarrow>
            noise_level img = Some 0
            \<and> map_option denoise_strength (noise_level img) = Some 5)"
proof -
  have "noise_level img = Some 0 \<and> map_option denoise_strength (noise_level img) = Some 5"
    if "shape_ok h w img" "0 < h" "0 < w" "const_img v img"
    using noise_level_const [OF that] by (simp add: denoise_strength_def np_clip_def)
  then show ?thesis
    by (simp add: denoise_strength_def np_clip_def min_def max_def)
qed

theorem denoise_strength_clamped_witness:
  "(0::real) \<le> 10 \<and> denoise_strength 10 = 6
   \<and> shape_ok 50 60 (replicate 50 (replicate 60 7)) \<and> (0::nat) < 50 \<and> (0::nat) < 60
   \<and> const_img 7 (replicate 50 (replicate 60 7))
   \<and> noise_level (replicate 50 (replicate 60 7)) = Some 0
   \<and> map_option denoise_strength (noise_level (replicate 50 (replicate 60 7))) = Some 5"
  using denoise_strength_clamped [of 10 50 60 "replicate 50 (replicate 60 7)" 7]
  by (simp add: shape_ok_replicate const_img_replicate denoise_strength_def np_clip_def)

lemma clip_u8_id: "clip_u8 img = img"
proof -
  have "word_of_nat (min (max (unat x) 0) 255) = x" for x :: pixel
  proof -
    have "unat x < 2 ^ LENGTH(8)" by (rule unsigned_less)
    then have "unat x < 256" by simp
    then show ?thesis by (simp add: min_def)
  qed
  then show ?thesis by (simp add: clip_u8_def map_idI)
qed

lemma bind_eq_Some: "(Option.bind m f = Some y) = (\<exists>x. m = Some x \<and> f x = Some y)"
  by (cases m) auto

subsection \<open>Pipeline executor\<close>

text \<open>
  C4: a run of the pipeline succeeds exactly when five stages succeed one after the
  other, each on the output of the one before: the clamp to 8 bits, CLAHE with the
  computed clip limit on an 8 by 8 tile grid, the bilateral filter with diameter 9
  and sigmas 75 and 75, non-local-means denoising with the computed strength and
  windows 7 and 21, and the sharpening blend. The blend is the weighted sum of the
  denoised image with weight \<open>strength s\<close> and of its 5 by 5 Gaussian blur with
  sigma 1.2 with weight \<open>1 - strength s\<close>, with offset 0. The arithmetic inside
  each primitive, the 8-bit rounding of the blend included, is OpenCV's.
\<close>

theorem five_stages_in_order:
  "adaptive_preprocessing P a = Some out \<longleftrightarrow>
     (\<exists>g c s n img_clahe img_bilateral img_denoised gaussian.
        as_gray P a = Some g
      \<and> contrast (clip_u8 g) = Some c
      \<and> sharpness P (clip_u8 g) = Some s
      \<and> noise_level (clip_u8 g) = Some n
      \<and> clahe_apply P (clahe_clip c) (8, 8) (clip_u8 g) = Some img_clahe
      \<and> bilateralFilter P img_clahe 9 75 75 = Some img_bilateral
      \<and> fastNlMeansDenoising P img_bilateral (denoise_strength n) 7 21 = Some img_denoised
      \<and> GaussianBlur P img_denoised (5, 5) 1.2 = Some gaussian
      \<and> addWeighted P img_denoised (strength s) gaussian (1 - strength s) 0 = Some out)"
  unfolding adaptive_preprocessing_def Let_def bind_eq_Some
  by (simp add: algebra_simps)

lemma shape_ok_map_length:
  "shape_ok h w img \<longleftrightarrow> map length img = replicate h w"
proof
  assume "shape_ok h w img"
  then have "length img = h" "\<And>row. row \<in> set img \<Longrightarrow> length row = w"
    by (auto simp: shape_ok_def list_all_iff)
  then show "map length img = replicate h w"
    by (metis length_map map_replicate_const map_eq_conv)
next
  assume *: "map length img = replicate h w"
  then have "length img = h" by (metis length_map length_replicate)
  moreover have "length row = w" if "row \<in> set img" for row
  proof -
    have "length row \<in> set (map length img)" using that by simp
    then show ?thesis unfolding * by simp
  qed
  ultimately show "shape_ok h w img" by (simp add: shape_ok_def list_all_iff)
qed

lemma contrast_const:
  assumes "shape_ok h w img" "0 < h" "0 < w" "const_img v img"
  shows "contrast img = Some 0"
proof -
  have ne: "intensities img \<noteq> []"
    using intensities_size [OF assms(1)] assms(2,3) by auto
  have "np_percentile (intensities img) 99 = Some (real (unat v))"
       "np_percentile (intensities img) 1 = Some (real (unat v))"
    using intensities_const [OF assms(4)] ne by (intro np_percentile_const; simp)+
  then show ?thesis by (simp add: contrast_def)
qed

lemma stub_run:
  assumes "0 < h" "0 < w"
  shows "adaptive_preprocessing stub_cv2 (Arr2 (replicate h (replicate w v)))
         = Some (replicate h (replicate w v))"
proof -
  let ?img = "replicate h (replicate w v)"
  have c: "contrast ?img = Some 0"
    using shape_ok_replicate assms const_img_replicate by (rule contrast_const)
  have n: "noise_level ?img = Some 0"
    using shape_ok_replicate assms const_img_replicate by (rule noise_level_const)
  have s: "sharpness stub_cv2 ?img = Some 0"
    by (simp add: sharpness_def stub_cv2_def np_var_def np_mean_def)
  show ?thesis
    unfolding adaptive_preprocessing_def as_gray_def clip_u8_id Let_def
    by (simp add: c n s) (simp add: stub_cv2_def)
qed

theorem five_stages_in_order_witness:
  "adaptive_preprocessing stub_cv2 (Arr2 (replicate 40 (replicate 40 7)))
     = Some (replicate 40 (replicate 40 7))
   \<and> addWeighted stub_cv2 (replicate 40 (replicate 40 7)) (strength 0)
        (replicate 40 (replicate 40 7)) (1 - strength 0) 0
     = Some (replicate 40 (replicate 40 7))"
proof -
  let ?img = "replicate 40 (replicate 40 7) :: image"
  have c: "contrast (clip_u8 ?img) = Some 0"
    unfolding clip_u8_id
    using shape_ok_replicate _ _ const_img_replicate by (rule contrast_const) simp_all
  have n: "noise_level (clip_u8 ?img) = Some 0"
    unfolding clip_u8_id
    using shape_ok_replicate _ _ const_img_replicate by (rule noise_level_const) simp_all
  have s: "sharpness stub_cv2 (clip_u8 ?img) = Some 0"
    by (simp add: sharpness_def stub_cv2_def np_var_def np_mean_def)
  have g: "as_gray stub_cv2 (Arr2 ?img) = Some ?img"
    by (simp add: as_gray_def)
  have f: "clahe_apply stub_cv2 (clahe_clip 0) (8, 8) (clip_u8 ?img) = Some ?img"
          "bilateralFilter stub_cv2 ?img 9 75 75 = Some ?img"
          "fastNlMeansDenoising stub_cv2 ?img (denoise_strength 0) 7 21 = Some ?img"
          "GaussianBlur stub_cv2 ?img (5, 5) 1.2 = Some ?img"
          "addWeighted stub_cv2 ?img (strength 0) ?img (1 - strength 0) 0 = Some ?img"
    by (simp_all add: stub_cv2_def clip_u8_id)
  have "adaptive_preprocessing stub_cv2 (Arr2 ?img) = Some ?img"
    using g c s n f by (subst five_stages_in_order) blast
  then show ?thesis using f(5) by simp
qed

text \<open>
  C8: for every input image with height and width at least 40 on which the pipeline
  succeeds, the output has the height and the width of the input, provided that
  each OpenCV filter returns an image of the shape of its (first) source image,
  as OpenCV documents.
\<close>

theorem output_same_shape:
  assumes run: "adaptive_preprocessing P (Arr2 img) = Some out"
    and shape: "shape_ok h w img" "40 \<le> h" "40 \<le> w"
    and clahe: "\<And>clip grid x y. clahe_apply P clip grid x = Some y \<Longrightarrow> map length y = map length x"
    and bilateral: "\<And>x d sc ss y. bilateralFilter P x d sc ss = Some y \<Longrightarrow> map length y = map length x"
    and nlm: "\<And>x hh t s y. fastNlMeansDenoising P x hh t s = Some y \<Longrightarrow> map length y = map length x"
    and blend: "\<And>x al y be ga z. addWeighted P x al y be ga = Some z \<Longrightarrow> map length z = map length x"
  shows "shape_ok h w out \<and> height out = height img \<and> width out = width img"
proof -
  from run obtain g c s n i2 i3 i4 gaussian where
      g: "as_gray P (Arr2 img) = Some g"
    and s2: "clahe_apply P (clahe_clip c) (8, 8) (clip_u8 g) = Some i2"
    and s3: "bilateralFilter P i2 9 75 75 = Some i3"
    and s4: "fastNlMeansDenoising P i3 (denoise_strength n) 7 21 = Some i4"
    and s5: "addWeighted P i4 (strength s) gaussian (- (strength s - 1)) 0 = Some out"
    unfolding adaptive_preprocessing_def Let_def bind_eq_Some by blast
  have "g = img" using g by (simp add: as_gray_def)
  then have "map length i2 = map length img"
    using clahe [OF s2] by (simp add: clip_u8_id)
  then have "map length out = map length img"
    using bilateral [OF s3] nlm [OF s4] blend [OF s5] by simp
  then have ok: "shape_ok h w out"
    using shape(1) by (simp add: shape_ok_map_length)
  have "0 < h" using shape(2) by simp
  then have "width out = w" "width img = w"
    using ok shape(1) by (auto intro: shape_ok_width)
  moreover have "height out = h" "height img = h"
    using ok shape(1) by (simp_all add: height_def shape_ok_def)
  ultimately show ?thesis using ok by simp
qed

theorem output_same_shape_witness:
  "adaptive_preprocessing stub_cv2 (Arr2 (replicate 40 (replicate 50 7)))
     = Some (replicate 40 (replicate 50 7))
   \<and> shape_ok 40 50 (replicate 40 (replicate 50 7)) \<and> (40::nat) \<le> 40 \<and> (40::nat) \<le> 50"
proof -
  let ?img = "replicate 40 (replicate 50 7) :: image"
  have run: "adaptive_preprocessing stub_cv2 (Arr2 ?img) = Some ?img"
    by (rule stub_run) simp_all
  have ok: "shape_ok 40 50 ?img" by (rule shape_ok_replicate)
  have b: "(40::nat) \<le> 40" "(40::nat) \<le> 50" by simp_all
  have "shape_ok 40 50 ?img \<and> height ?img = height ?img \<and> width ?img = width ?img"
    by (rule output_same_shape [OF run ok b]) (simp_all add: stub_cv2_def)
  then show ?thesis using run b by blast
qed

subsection \<open>Files and batches\<close>

lemma lower_append: "lower (a @ b) = lower a @ lower b"
  by (simp add: lower_def)

lemma lower_suffix: "lower ''_processed.png'' = ''_processed.png''"
  by (simp add: lower_def lower_char_def)

lemma endswith_append:
  assumes "endswith b suf"
  shows "endswith (a @ b) suf"
proof -
  have le: "length suf \<le> length b" and d: "drop (length b - length suf) b = suf"
    using assms by (simp_all add: endswith_def)
  have "length (a @ b) - length suf = length a + (length b - length suf)"
    using le by simp
  then have "drop (length (a @ b) - length suf) (a @ b) = suf"
    using d by simp
  then show ?thesis using le by (simp add: endswith_def)
qed

lemma not_endswith_png:
  "\<not> endswith (x @ ''_processed.png'') ''.dcm''"
  "\<not> endswith (x @ ''_processed.png'') ''.rvg''"
  by (simp_all add: endswith_def)

lemma out_path_no_image_ext: "\<not> has_image_ext (out_path g)"
  unfolding has_image_ext_def out_path_def lower_append lower_suffix
  using not_endswith_png by simp

lemma has_image_ext_join: "has_image_ext n \<Longrightarrow> has_image_ext (path_join d n)"
proof -
  assume n: "has_image_ext n"
  have "has_image_ext (x @ n)" for x
    using n unfolding has_image_ext_def lower_append by (auto intro: endswith_append)
  from this [of "[]"] this [of d] this [of "d @ ''/''"] show ?thesis
    by (auto simp: path_join_def)
qed



lemma say_Some:
  "say E m st = Some st' \<Longrightarrow>
     files st' = files st \<and> imwrite_calls st' = imwrite_calls st
     \<and> printed st' = printed st @ [m]"
  by (auto simp: say_def split: if_splits)



lemma stub_result:
  "adaptive_preprocessing stub_cv2 (Arr2 (replicate 40 (replicate 40 7)))
   = Some (replicate 40 (replicate 40 7))"
  by (rule stub_run) simp_all

text \<open>
  C9 fails on the code. Standard output cannot encode the name of the first of two
  valid image files: the \<^verbatim>\<open>print\<close> of line 98 raises outside every \<^verbatim>\<open>try\<close>,
  the exception ends the loop of lines 124-128, and the second file, which is
  valid, is never processed and has no output image.
\<close>

theorem unprintable_name_aborts_batch:
  "valid_file strict_env (files strict_world) ''d/c.dcm''
   \<and> main strict_env strict_world ''d'' = Uncaught strict_world
   \<and> files (world_of (main strict_env strict_world ''d'')) (out_path ''d/c.dcm'') = None
   \<and> imwrite_calls (world_of (main strict_env strict_world ''d'')) = []"
proof -
  let ?bad = "CHR 0xFF # ''.dcm''"
  have e1: "has_image_ext ?bad" by code_simp
  have e2: "has_image_ext ''c.dcm''" by code_simp
  have j: "path_join ''d'' ?bad = ''d/'' @ ?bad" "path_join ''d'' ''c.dcm'' = ''d/c.dcm''"
    by (simp_all add: path_join_def)
  have o: "out_path ''d/c.dcm'' = ''d/c_processed.png''"
    by (simp add: out_path_def splitext_root_def rfind_def py_slice_def py_index_def
                  upt_rec Let_def)
  have v: "valid_file strict_env (files strict_world) ''d/c.dcm''"
    unfolding valid_file_def file_result_def load_dicom_file_def
    by (simp add: strict_world_def) (simp add: strict_env_def stub_result)
  have ex: "files strict_world (''d/'' @ ?bad) \<noteq> None"
    by (simp add: strict_world_def)
  have np: "\<not> stdout_ok strict_env (Processing (''d/'' @ ?bad))"
    by (simp add: strict_env_def names_printable_def ascii_def)
  have p: "process_file strict_env strict_world (''d/'' @ ?bad) = Uncaught strict_world"
    using np by (simp add: process_file_def say_def)
  have l: "listdir strict_env ''d'' = Some [?bad, ''c.dcm'']"
    by (simp add: strict_env_def)
  have m: "main strict_env strict_world ''d'' = Uncaught strict_world"
    unfolding main_def l using e1 e2 ex p by (simp add: j del: not_None_eq)
  have "files strict_world ''d/c_processed.png'' = None"
    by (simp add: strict_world_def)
  then show ?thesis
    using v m by (simp add: o world_of_def) (simp add: strict_world_def)
qed

text \<open>
  What holds of a batch when every \<^verbatim>\<open>print\<close> succeeds: each step returns and
  only adds to the printed lines, the write calls and the files, and it leaves
  the image files of the listing as they were.
\<close>

lemma file_result_cong: "fs f = fs' f \<Longrightarrow> file_result E fs f = file_result E fs' f"
  by (simp add: file_result_def load_dicom_file_def)

lemma valid_file_cong: "fs f = fs' f \<Longrightarrow> valid_file E fs f = valid_file E fs' f"
  by (simp add: valid_file_def file_result_cong [of fs f fs'])

lemma valid_file_exists: "valid_file E fs f \<Longrightarrow> fs f \<noteq> None"
  by (auto simp: valid_file_def file_result_def load_dicom_file_def split: option.splits)

lemma process_file_ok:
  assumes all: "\<And>m. stdout_ok E m"
  shows "\<exists>st'. process_file E st g = Returned st'
           \<and> Processing g \<in> set (printed st')
           \<and> set (printed st) \<subseteq> set (printed st')
           \<and> set (imwrite_calls st) \<subseteq> set (imwrite_calls st')
           \<and> (\<forall>k. files st k \<noteq> None \<longrightarrow> files st' k \<noteq> None)
           \<and> (\<forall>f. has_image_ext f \<longrightarrow> files st' f = files st f)
           \<and> (\<forall>r. file_result E (files st) g = Some r \<longrightarrow>
                  (out_path g, r) \<in> set (imwrite_calls st'))
           \<and> (valid_file E (files st) g \<longrightarrow>
                  files st' (out_path g) \<noteq> None \<and> Saved (out_path g) \<in> set (printed st'))"
proof -
  have np: "has_image_ext f \<Longrightarrow> out_path g \<noteq> f" for f
    using out_path_no_image_ext [of g] by auto
  show ?thesis
  proof (cases "load_dicom_file E (files st) g")
    case None
    then show ?thesis
      by (auto simp: process_file_def say_def all file_result_def valid_file_def)
  next
    case (Some img)
    show ?thesis
    proof (cases "adaptive_preprocessing (cv E) img")
      case None
      then show ?thesis
        using Some by (auto simp: process_file_def say_def all file_result_def valid_file_def)
    next
      case res: (Some result)
      show ?thesis
      proof (cases "imwrite E (out_path g) result")
        case Raised
        then show ?thesis
          using Some res
          by (auto simp: process_file_def say_def all file_result_def valid_file_def
                         save_failed_def Let_def)
      next
        case ReturnedFalse
        then show ?thesis
          using Some res
          by (auto simp: process_file_def say_def all file_result_def valid_file_def
                         save_failed_def Let_def)
      next
        case (Written content)
        then show ?thesis
          using Some res np
          by (auto simp: process_file_def say_def all file_result_def valid_file_def
                         save_failed_def Let_def)
      qed
    qed
  qed
qed

lemma run_batch_ok:
  assumes all: "\<And>m. stdout_ok E m"
    and exts: "\<And>g. g \<in> set fs \<Longrightarrow> has_image_ext g"
  shows "\<exists>st'. run_batch E st fs = Returned st'
           \<and> set (printed st) \<subseteq> set (printed st')
           \<and> set (imwrite_calls st) \<subseteq> set (imwrite_calls st')
           \<and> (\<forall>k. files st k \<noteq> None \<longrightarrow> files st' k \<noteq> None)
           \<and> (\<forall>f \<in> set fs.
                 (Processing f \<in> set (printed st') \<or> FileNotFound f \<in> set (printed st'))
                 \<and> (valid_file E (files st) f \<longrightarrow>
                       (\<exists>r. file_result E (files st) f = Some r
                            \<and> (out_path f, r) \<in> set (imwrite_calls st'))
                       \<and> files st' (out_path f) \<noteq> None
                       \<and> Saved (out_path f) \<in> set (printed st')))"
  using exts
proof (induction fs arbitrary: st)
  case Nil
  then show ?case by simp
next
  case (Cons g gs)
  have "\<exists>st1. (if files st g \<noteq> None then process_file E st g
               else (case say E (FileNotFound g) st of None \<Rightarrow> Uncaught st
                     | Some st' \<Rightarrow> Returned st')) = Returned st1
           \<and> (Processing g \<in> set (printed st1) \<or> FileNotFound g \<in> set (printed st1))
           \<and> set (printed st) \<subseteq> set (printed st1)
           \<and> set (imwrite_calls st) \<subseteq> set (imwrite_calls st1)
           \<and> (\<forall>k. files st k \<noteq> None \<longrightarrow> files st1 k \<noteq> None)
           \<and> (\<forall>f. has_image_ext f \<longrightarrow> files st1 f = files st f)
           \<and> (\<forall>r. file_result E (files st) g = Some r \<longrightarrow>
                  (out_path g, r) \<in> set (imwrite_calls st1))
           \<and> (valid_file E (files st) g \<longrightarrow>
                  files st1 (out_path g) \<noteq> None \<and> Saved (out_path g) \<in> set (printed st1))"
  proof (cases "files st g")
    case None
    then show ?thesis
      using valid_file_exists [of E "files st" g]
      by (auto simp: say_def all file_result_def load_dicom_file_def)
  next
    case (Some content)
    then show ?thesis using process_file_ok [OF all, of st g] by auto
  qed
  then obtain st1 where
      step: "(if files st g \<noteq> None then process_file E st g
              else (case say E (FileNotFound g) st of None \<Rightarrow> Uncaught st
                    | Some st' \<Rightarrow> Returned st')) = Returned st1"
    and seen: "Processing g \<in> set (printed st1) \<or> FileNotFound g \<in> set (printed st1)"
    and p1: "set (printed st) \<subseteq> set (printed st1)"
    and c1: "set (imwrite_calls st) \<subseteq> set (imwrite_calls st1)"
    and f1: "\<And>k. files st k \<noteq> None \<Longrightarrow> files st1 k \<noteq> None"
    and frame: "\<And>f. has_image_ext f \<Longrightarrow> files st1 f = files st f"
    and own: "\<And>r. file_result E (files st) g = Some r \<Longrightarrow>
                 (out_path g, r) \<in> set (imwrite_calls st1)"
    and out: "valid_file E (files st) g \<Longrightarrow>
                 files st1 (out_path g) \<noteq> None \<and> Saved (out_path g) \<in> set (printed st1)"
    by blast
  have rb: "run_batch E st (g # gs) = run_batch E st1 gs"
  proof (cases "files st g")
    case None
    then show ?thesis using step by (simp split: option.splits)
  next
    case (Some content)
    then show ?thesis using step by simp
  qed
  have "\<And>g'. g' \<in> set gs \<Longrightarrow> has_image_ext g'" using Cons.prems by simp
  from Cons.IH [OF this, of st1] obtain st' where
      r: "run_batch E st1 gs = Returned st'"
    and p2: "set (printed st1) \<subseteq> set (printed st')"
    and c2: "set (imwrite_calls st1) \<subseteq> set (imwrite_calls st')"
    and f2: "\<And>k. files st1 k \<noteq> None \<Longrightarrow> files st' k \<noteq> None"
    and rest: "\<And>f. f \<in> set gs \<Longrightarrow>
                 (Processing f \<in> set (printed st') \<or> FileNotFound f \<in> set (printed st'))
                 \<and> (valid_file E (files st1) f \<longrightarrow>
                       (\<exists>r. file_result E (files st1) f = Some r
                            \<and> (out_path f, r) \<in> set (imwrite_calls st'))
                       \<and> files st' (out_path f) \<noteq> None
                       \<and> Saved (out_path f) \<in> set (printed st'))"
    by blast
  have head: "(Processing g \<in> set (printed st') \<or> FileNotFound g \<in> set (printed st'))
              \<and> (valid_file E (files st) g \<longrightarrow>
                    (\<exists>r. file_result E (files st) g = Some r
                         \<and> (out_path g, r) \<in> set (imwrite_calls st'))
                    \<and> files st' (out_path g) \<noteq> None
                    \<and> Saved (out_path g) \<in> set (printed st'))"
  proof (intro conjI impI)
    show "Processing g \<in> set (printed st') \<or> FileNotFound g \<in> set (printed st')"
      using seen p2 by blast
  next
    assume v: "valid_file E (files st) g"
    then obtain r where "file_result E (files st) g = Some r"
      by (auto simp: valid_file_def split: option.splits)
    then show "\<exists>r. file_result E (files st) g = Some r
                 \<and> (out_path g, r) \<in> set (imwrite_calls st')"
      using own c2 by blast
    show "files st' (out_path g) \<noteq> None" using out [OF v] f2 by blast
    show "Saved (out_path g) \<in> set (printed st')" using out [OF v] p2 by blast
  qed
  have tail: "(Processing f \<in> set (printed st') \<or> FileNotFound f \<in> set (printed st'))
              \<and> (valid_file E (files st) f \<longrightarrow>
                    (\<exists>r. file_result E (files st) f = Some r
                         \<and> (out_path f, r) \<in> set (imwrite_calls st'))
                    \<and> files st' (out_path f) \<noteq> None
                    \<and> Saved (out_path f) \<in> set (printed st'))"
    if "f \<in> set gs" for f
  proof -
    have "has_image_ext f" using that Cons.prems by simp
    then have same: "files st1 f = files st f" by (rule frame)
    have "valid_file E (files st1) f = valid_file E (files st) f"
         "file_result E (files st1) f = file_result E (files st) f"
      using same valid_file_cong [of "files st1" f "files st" E]
            file_result_cong [of "files st1" f "files st" E]
      by simp_all
    then show ?thesis using rest [OF that] by simp
  qed
  have a: "run_batch E st (g # gs) = Returned st'" using rb r by simp
  have b: "set (printed st) \<subseteq> set (printed st')" using p1 p2 by blast
  have c: "set (imwrite_calls st) \<subseteq> set (imwrite_calls st')" using c1 c2 by blast
  have d: "\<forall>k. files st k \<noteq> None \<longrightarrow> files st' k \<noteq> None" using f1 f2 by blast
  have e: "\<forall>f \<in> set (g # gs).
             (Processing f \<in> set (printed st') \<or> FileNotFound f \<in> set (printed st'))
             \<and> (valid_file E (files st) f \<longrightarrow>
                   (\<exists>r. file_result E (files st) f = Some r
                        \<and> (out_path f, r) \<in> set (imwrite_calls st'))
                   \<and> files st' (out_path f) \<noteq> None
                   \<and> Saved (out_path f) \<in> set (printed st'))"
  proof
    fix f assume "f \<in> set (g # gs)"
    then consider "f = g" | "f \<in> set gs" by auto
    then show "(Processing f \<in> set (printed st') \<or> FileNotFound f \<in> set (printed st'))
             \<and> (valid_file E (files st) f \<longrightarrow>
                   (\<exists>r. file_result E (files st) f = Some r
                        \<and> (out_path f, r) \<in> set (imwrite_calls st'))
                   \<and> files st' (out_path f) \<noteq> None
                   \<and> Saved (out_path f) \<in> set (printed st'))"
    proof cases
      case 1
      then show ?thesis using head by simp
    next
      case 2
      then show ?thesis by (rule tail)
    qed
  qed
  from a b c d e show ?case by blast
qed

lemma batch_continues_when_prints_succeed:
  assumes "\<And>m. stdout_ok E m"
    and "listdir E image_dir = Some names" "n \<in> set names" "has_image_ext n"
  shows "\<exists>st'. main E st image_dir = Returned st'
           \<and> (Processing (path_join image_dir n) \<in> set (printed st')
                \<or> FileNotFound (path_join image_dir n) \<in> set (printed st'))
           \<and> (valid_file E (files st) (path_join image_dir n) \<longrightarrow>
                 (\<exists>r. file_result E (files st) (path_join image_dir n) = Some r
                      \<and> (out_path (path_join image_dir n), r) \<in> set (imwrite_calls st'))
                 \<and> files st' (out_path (path_join image_dir n)) \<noteq> None
                 \<and> Saved (out_path (path_join image_dir n)) \<in> set (printed st'))"
proof -
  let ?fs = "map (path_join image_dir) (filter has_image_ext names)"
  have m: "main E st image_dir = run_batch E st ?fs"
    using assms(2) by (simp add: main_def)
  have mem: "path_join image_dir n \<in> set ?fs" using assms(3,4) by auto
  have ext: "has_image_ext g" if "g \<in> set ?fs" for g
    using that by (auto intro: has_image_ext_join)
  from run_batch_ok [OF assms(1) ext, of ?fs st] mem show ?thesis
    unfolding m by blast
qed

end
